theory Spec2Isabelle
  imports Main "HOL-Library.Word"
begin

section \<open>Faults of the C++ code made explicit\<close>

text \<open>
  An array access outside its bounds, an array allocation of negative length and a signed
  overflow leave the defined behaviour of the C++ program, and a failed \<open>ASSERT\<close> aborts it;
  the model returns them as values of a sum type.
\<close>

datatype fault = OutOfBounds | BadArrayLength | SignedOverflow | AssertionFailed

definition bind_fault :: "fault + 'a \<Rightarrow> ('a \<Rightarrow> fault + 'b) \<Rightarrow> fault + 'b" where
  "bind_fault r k = (case r of Inl e \<Rightarrow> Inl e | Inr x \<Rightarrow> k x)"

text \<open>C++ integer division truncates towards zero.\<close>

definition c_div :: "int \<Rightarrow> int \<Rightarrow> int" where
  "c_div a b = sgn a * sgn b * (\<bar>a\<bar> div \<bar>b\<bar>)"

text \<open>
  \<open>int\<close> is a 32-bit signed integer; an addition or subtraction that leaves its range is
  undefined behaviour.
\<close>

definition INT_MAX :: int where "INT_MAX = 2147483647"
definition INT_MIN :: int where "INT_MIN = - 2147483648"

definition int_add :: "int \<Rightarrow> int \<Rightarrow> fault + int" where
  "int_add a b = (if INT_MIN \<le> a + b \<and> a + b \<le> INT_MAX then Inr (a + b) else Inl SignedOverflow)"

definition int_sub :: "int \<Rightarrow> int \<Rightarrow> fault + int" where
  "int_sub a b = (if INT_MIN \<le> a - b \<and> a - b \<le> INT_MAX then Inr (a - b) else Inl SignedOverflow)"

section \<open>Scene constants\<close>

text \<open>
  Modelled from the spec: the declaration of \<open>FISHENUM\<close> lives in Aquarium.h, which is not
  among the sources; section 4.2 gives the declared order of the size classes as
  BIG, MEDIUM, SMALL, and \<open>MAX\<close> closes the enumeration.
\<close>

datatype FISHENUM = BIG | MEDIUM | SMALL

fun FISHENUM_val :: "FISHENUM \<Rightarrow> int" where
  "FISHENUM_val BIG = 0"
| "FISHENUM_val MEDIUM = 1"
| "FISHENUM_val SMALL = 2"

definition FISHENUM_MAX :: int where
  "FISHENUM_MAX = 3"

text \<open>
  One row of \<open>fishTable\<close>: the model slot of the species and its size class (the animation
  tuning fields play no part in the allocation).
\<close>

record Fish =
  modelName :: int
  fishType :: FISHENUM

text \<open>
  The tuning constants, the species table and the values of the \<open>MODELNAME\<close> enumerators are
  declared in Aquarium.h as well; they are parameters of the model.
\<close>

record scene =
  g_numFishSmall :: int
  g_numFishMedium :: int
  g_numFishBig :: int
  g_numFishLeftSmall :: int
  g_numFishLeftBig :: int
  fishTable :: "Fish list"
  MODELSMALLFISHA :: int
  MODELBIGFISHB :: int
  MODELSMALLFISHAINSTANCEDDRAWS :: int
  MODELBIGFISHBINSTANCEDDRAWS :: int
  MODELMAX :: int

text \<open>
  An instance of the parameters with the tuning of the reference scene, used for concrete
  evaluation.
\<close>

definition reference_scene :: scene where
  "reference_scene = \<lparr>
     g_numFishSmall = 100, g_numFishMedium = 1000, g_numFishBig = 10000,
     g_numFishLeftSmall = 80, g_numFishLeftBig = 160,
     fishTable = [
       \<lparr>modelName = 23, fishType = SMALL\<rparr>,
       \<lparr>modelName = 24, fishType = MEDIUM\<rparr>,
       \<lparr>modelName = 25, fishType = MEDIUM\<rparr>,
       \<lparr>modelName = 26, fishType = BIG\<rparr>,
       \<lparr>modelName = 27, fishType = BIG\<rparr>],
     MODELSMALLFISHA = 23, MODELBIGFISHB = 27,
     MODELSMALLFISHAINSTANCEDDRAWS = 28, MODELBIGFISHBINSTANCEDDRAWS = 32,
     MODELMAX = 33\<rparr>"

section \<open>Aquarium::calculateFishCount\<close>

text \<open>The index \<open>fishInfo.modelName - MODELNAME::MODELSMALLFISHA\<close> into \<open>fishCount\<close>.\<close>

definition slot :: "scene \<Rightarrow> Fish \<Rightarrow> int" where
  "slot c f = modelName f - MODELSMALLFISHA c"

text \<open>A store into a C array: outside the bounds it is a fault.\<close>

definition array_store :: "'a list \<Rightarrow> int \<Rightarrow> 'a \<Rightarrow> fault + 'a list" where
  "array_store xs i v =
     (if 0 \<le> i \<and> i < int (length xs) then Inr (xs[nat i := v]) else Inl OutOfBounds)"

text \<open>The value of \<open>numfloat\<close> for a species of class \<open>i\<close>, from the body of the inner loop.\<close>

definition numfloat_of :: "scene \<Rightarrow> int \<Rightarrow> int \<Rightarrow> int \<Rightarrow> int" where
  "numfloat_of c mCurFishCount i numLeft =
     (if i = FISHENUM_val BIG then
        (let temp = (if mCurFishCount < g_numFishSmall c then 1 else 2)
         in min numLeft temp)
      else if i = FISHENUM_val MEDIUM then
        (if mCurFishCount < g_numFishMedium c then min numLeft (c_div mCurFishCount 10)
         else if mCurFishCount < g_numFishBig c then min numLeft (g_numFishLeftSmall c)
         else min numLeft (g_numFishLeftBig c))
      else numLeft)"

text \<open>
  The inner loop \<open>for (auto &fishInfo : fishTable)\<close> for class \<open>i\<close>; the state is
  \<open>(numLeft, fishCount)\<close>.
\<close>

fun species_loop ::
  "scene \<Rightarrow> int \<Rightarrow> int \<Rightarrow> Fish list \<Rightarrow> int \<times> int list \<Rightarrow> fault + (int \<times> int list)" where
  "species_loop c cur i [] st = Inr st"
| "species_loop c cur i (fishInfo # rest) (numLeft, fishCount) =
     (if FISHENUM_val (fishType fishInfo) \<noteq> i then species_loop c cur i rest (numLeft, fishCount)
      else
        (let numfloat = numfloat_of c cur i numLeft
         in bind_fault (array_store fishCount (slot c fishInfo) numfloat)
              (\<lambda>fishCount'. species_loop c cur i rest (numLeft - numfloat, fishCount'))))"

text \<open>The outer loop \<open>for (int i = 0; i < FISHENUM::MAX; ++i)\<close>.\<close>

function class_loop ::
  "scene \<Rightarrow> int \<Rightarrow> int \<Rightarrow> int \<times> int list \<Rightarrow> fault + (int \<times> int list)" where
  "class_loop c cur i st =
     (if i < FISHENUM_MAX
      then bind_fault (species_loop c cur i (fishTable c) st) (class_loop c cur (i + 1))
      else Inr st)"
  by pat_completeness auto
termination
  by (relation "measure (\<lambda>(c, cur, i, st). nat (FISHENUM_MAX - i))") auto

declare class_loop.simps [simp del]

definition calculateFishCount :: "scene \<Rightarrow> int \<Rightarrow> int list \<Rightarrow> fault + int list" where
  "calculateFishCount c mCurFishCount fishCount =
     bind_fault (class_loop c mCurFishCount 0 (mCurFishCount, fishCount))
       (\<lambda>(numLeft, fishCount'). Inr fishCount')"

section \<open>Toggles\<close>

text \<open>
  The members of the \<open>TOGGLE\<close> enumeration that the frame loop tests; \<open>toggleBitset\<close> is
  the set of the toggles that are switched on.
\<close>

datatype TOGGLE =
    ENABLEINSTANCEDDRAWS
  | ENABLEDYNAMICBUFFEROFFSET
  | SIMULATINGFISHCOMEANDGO
  | BUFFERMAPPINGASYNC
  | DRAWPERMODEL

section \<open>ContextDawn: per-fish GPU resources\<close>

text \<open>
  The Dawn objects are opaque to the program. The model keeps, for every handle, whether it
  is null and how many \<open>FishPer\<close> records (or bind groups) the object was created for, and
  it logs each creation and each release of an object, together with the calls to the
  queue and the device, in \<open>trace\<close>.
\<close>

datatype resource =
    FishPersArray int
  | BindGroupArray int
  | FishPersBuffer int
  | StagingBuffer int
  | BindGroup int

datatype command = RenderPassCommands | CopyStagingToFishPers int

datatype gpu_event =
    Created resource
  | Released resource
  | MapWriteAsync
  | SetSubData int
  | DeviceTick
  | MapWriteCallbackFired
  | StagingUnmap
  | QueueSubmit "command list"
  | Present

text \<open>
  The members of \<open>ContextDawn\<close> used by the reallocation and by the flush. A handle is
  \<open>None\<close> when it is null; \<open>bindGroupFishPers\<close> holds, for each element of the array, whether
  the bind group is non-null. \<open>mapRequested\<close> is the state of the backend: a
  \<open>MapWriteAsync\<close> request is outstanding.
\<close>

record ContextDawn =
  mPreTotalInstance :: int
  mCurTotalInstance :: int
  mEnableDynamicBufferOffset :: bool
  fishPers :: "int option"
  bindGroupFishPers :: "bool list option"
  fishPersBuffer :: "int option"
  stagingBuffer :: "int option"
  mappedData :: bool
  mCommandBuffers :: "command list"
  mapRequested :: bool
  trace :: "gpu_event list"

definition emit :: "gpu_event list \<Rightarrow> ContextDawn \<Rightarrow> ContextDawn" where
  "emit es ctx = ctx\<lparr>trace := trace ctx @ es\<rparr>"

text \<open>Assigning \<open>nullptr\<close> to a handle releases the object it holds, if any.\<close>

definition release_handle :: "(int \<Rightarrow> resource) \<Rightarrow> int option \<Rightarrow> gpu_event list" where
  "release_handle mk h = (case h of None \<Rightarrow> [] | Some n \<Rightarrow> [Released (mk n)])"

text \<open>
  \<open>if (bindGroupFishPers[i].Get() != nullptr) bindGroupFishPers[i] = nullptr;\<close>
\<close>

definition release_group :: "bool list \<Rightarrow> int \<Rightarrow> fault + (bool list \<times> gpu_event list)" where
  "release_group bgs i =
     (if 0 \<le> i \<and> i < int (length bgs)
      then (if bgs ! nat i then Inr (bgs[nat i := False], [Released (BindGroup i)])
            else Inr (bgs, []))
      else Inl OutOfBounds)"

text \<open>The loop \<open>for (int i = 0; i < mPreTotalInstance; i++)\<close> of \<open>destoryFishResource\<close>.\<close>

function release_groups ::
  "int \<Rightarrow> int \<Rightarrow> bool list \<times> gpu_event list \<Rightarrow> fault + (bool list \<times> gpu_event list)" where
  "release_groups n i (bgs, es) =
     (if i < n
      then bind_fault (release_group bgs i)
             (\<lambda>(bgs', es'). release_groups n (i + 1) (bgs', es @ es'))
      else Inr (bgs, es))"
  by pat_completeness auto
termination
  by (relation "measure (\<lambda>(n, i, st). nat (n - i))") auto

declare release_groups.simps [simp del]

text \<open>
  \<open>ContextDawn::destoryFishResource\<close>. The pointer to the bind-group array is dropped at the
  end without the array being deleted.
\<close>

definition destoryFishResource :: "ContextDawn \<Rightarrow> fault + ContextDawn" where
  "destoryFishResource ctx =
     (let es1 = release_handle FishPersBuffer (fishPersBuffer ctx)
              @ release_handle StagingBuffer (stagingBuffer ctx)
              @ release_handle FishPersArray (fishPers ctx);
          groups =
            (case bindGroupFishPers ctx of
               None \<Rightarrow> Inr []
             | Some bgs \<Rightarrow>
                 if mEnableDynamicBufferOffset ctx
                 then bind_fault (release_group bgs 0) (\<lambda>(bgs', es'). Inr es')
                 else bind_fault (release_groups (mPreTotalInstance ctx) 0 (bgs, []))
                        (\<lambda>(bgs', es'). Inr es'))
      in bind_fault groups (\<lambda>es2.
           Inr (emit (es1 @ es2)
             (ctx\<lparr>fishPersBuffer := None, stagingBuffer := None, fishPers := None,
                   bindGroupFishPers := None\<rparr>))))"

text \<open>The loop that fills the new bind-group array, one group per instance.\<close>

function make_groups :: "int \<Rightarrow> int \<Rightarrow> bool list \<times> gpu_event list \<Rightarrow> fault + (bool list \<times> gpu_event list)" where
  "make_groups n i (bgs, es) =
     (if i < n
      then bind_fault (array_store bgs i True)
             (\<lambda>bgs'. make_groups n (i + 1) (bgs', es @ [Created (BindGroup i)]))
      else Inr (bgs, es))"
  by pat_completeness auto
termination
  by (relation "measure (\<lambda>(n, i, st). nat (n - i))") auto

declare make_groups.simps [simp del]

text \<open>
  \<open>ContextDawn::reallocResource\<close>. Sizes are counted in \<open>FishPer\<close> records; \<open>new FishPer[n]\<close>
  with a negative \<open>n\<close> is a fault.
\<close>

definition reallocResource :: "int \<Rightarrow> int \<Rightarrow> bool \<Rightarrow> ContextDawn \<Rightarrow> fault + ContextDawn" where
  "reallocResource preTotalInstance curTotalInstance enableDynamicBufferOffset ctx =
     (let ctx1 = ctx\<lparr>mPreTotalInstance := preTotalInstance,
                      mCurTotalInstance := curTotalInstance,
                      mEnableDynamicBufferOffset := enableDynamicBufferOffset\<rparr>
      in if curTotalInstance = 0 then Inr ctx1
         else if preTotalInstance \<ge> curTotalInstance then Inr ctx1
         else bind_fault (destoryFishResource ctx1) (\<lambda>ctx2.
           if curTotalInstance < 0 then Inl BadArrayLength
           else
             (let n = (if enableDynamicBufferOffset then 1 else curTotalInstance);
                  ctx3 = emit [Created (FishPersArray curTotalInstance), Created (BindGroupArray n),
                               Created (FishPersBuffer curTotalInstance),
                               Created (StagingBuffer curTotalInstance)]
                           (ctx2\<lparr>fishPers := Some curTotalInstance,
                                  bindGroupFishPers := Some (replicate (nat n) False),
                                  fishPersBuffer := Some curTotalInstance,
                                  stagingBuffer := Some curTotalInstance\<rparr>)
              in bind_fault
                   (if enableDynamicBufferOffset
                    then bind_fault (array_store (replicate (nat n) False) 0 True)
                           (\<lambda>bgs. Inr (bgs, [Created (BindGroup 0)]))
                    else make_groups curTotalInstance 0 (replicate (nat n) False, []))
                   (\<lambda>(bgs, es). Inr (emit es (ctx3\<lparr>bindGroupFishPers := Some bgs\<rparr>))))))"

text \<open>
  The state after the constructor: every handle is null and \<open>mappedData\<close> is null. The
  constructor leaves the three bookkeeping members uninitialised; \<open>reallocResource\<close>
  assigns them before they are read, and the model starts them at zero.
\<close>

definition ContextDawn_ctor :: ContextDawn where
  "ContextDawn_ctor = \<lparr>mPreTotalInstance = 0, mCurTotalInstance = 0, mEnableDynamicBufferOffset = False,
     fishPers = None, bindGroupFishPers = None, fishPersBuffer = None, stagingBuffer = None,
     mappedData = False, mCommandBuffers = [], mapRequested = False, trace = []\<rparr>"

section \<open>ContextDawn: upload of the fish data and submission of the frame\<close>

text \<open>
  What one call of \<open>mDevice.Tick()\<close> does to an outstanding mapping request is decided by the
  backend: nothing yet, completion, or failure. The polling loop of \<open>DoFlush\<close> is run
  against a list of such outcomes, one per tick; when the list is used up while the loop is
  still waiting, the result is \<open>None\<close>.
\<close>

datatype tick_outcome = Idle | MapDone | MapFailed

definition updateAllFishData :: "TOGGLE set \<Rightarrow> ContextDawn \<Rightarrow> ContextDawn" where
  "updateAllFishData toggleBitset ctx =
     (if BUFFERMAPPINGASYNC \<in> toggleBitset
      then emit [MapWriteAsync] (ctx\<lparr>mapRequested := True\<rparr>)
      else emit [SetSubData (mCurTotalInstance ctx)] ctx)"

text \<open>
  \<open>ContextDawn::MapWriteCallback\<close>: the two \<open>ASSERT\<close>s, then \<open>mappedData\<close> is set and the copy
  from the staging buffer to the per-fish buffer is appended to \<open>mCommandBuffers\<close>.
\<close>

definition MapWriteCallback :: "bool \<Rightarrow> ContextDawn \<Rightarrow> fault + ContextDawn" where
  "MapWriteCallback success ctx =
     (if \<not> success then Inl AssertionFailed
      else
        (let size = mCurTotalInstance ctx;
             ctx1 = ctx\<lparr>mappedData := True\<rparr>;
             command = CopyStagingToFishPers size
         in Inr (emit [MapWriteCallbackFired]
                  (ctx1\<lparr>mCommandBuffers := mCommandBuffers ctx1 @ [command]\<rparr>))))"

text \<open>\<open>mDevice.Tick()\<close>: the backend runs the callback of a request it has finished.\<close>

definition device_tick :: "tick_outcome \<Rightarrow> ContextDawn \<Rightarrow> fault + ContextDawn" where
  "device_tick outcome ctx =
     (let ctx1 = emit [DeviceTick] ctx
      in if mapRequested ctx1 \<and> outcome \<noteq> Idle
         then MapWriteCallback (outcome = MapDone) (ctx1\<lparr>mapRequested := False\<rparr>)
         else Inr ctx1)"

definition WaitABit :: "tick_outcome \<Rightarrow> ContextDawn \<Rightarrow> fault + ContextDawn" where
  "WaitABit outcome ctx = device_tick outcome ctx"

text \<open>The loop \<open>while (mappedData == nullptr) WaitABit();\<close>.\<close>

fun wait_for_mapping :: "tick_outcome list \<Rightarrow> ContextDawn \<Rightarrow> (fault + ContextDawn) option" where
  "wait_for_mapping [] ctx = (if mappedData ctx then Some (Inr ctx) else None)"
| "wait_for_mapping (outcome # rest) ctx =
     (if mappedData ctx then Some (Inr ctx)
      else (case WaitABit outcome ctx of
              Inl e \<Rightarrow> Some (Inl e)
            | Inr ctx' \<Rightarrow> wait_for_mapping rest ctx'))"

definition Flush :: "ContextDawn \<Rightarrow> ContextDawn" where
  "Flush ctx = (emit [QueueSubmit (mCommandBuffers ctx)] ctx)\<lparr>mCommandBuffers := []\<rparr>"

text \<open>\<open>ContextDawn::DoFlush\<close>: end the render pass, wait for the upload, submit, present.\<close>

definition DoFlush :: "TOGGLE set \<Rightarrow> tick_outcome list \<Rightarrow> ContextDawn \<Rightarrow> (fault + ContextDawn) option" where
  "DoFlush toggleBitset sched ctx =
     (let ctx1 = ctx\<lparr>mCommandBuffers := mCommandBuffers ctx @ [RenderPassCommands]\<rparr>
      in if BUFFERMAPPINGASYNC \<in> toggleBitset
         then (case wait_for_mapping sched ctx1 of
                 None \<Rightarrow> None
               | Some (Inl e) \<Rightarrow> Some (Inl e)
               | Some (Inr ctx2) \<Rightarrow>
                   Some (Inr (emit [Present]
                     (Flush (emit [StagingUnmap] (ctx2\<lparr>mappedData := False\<rparr>))))))
         else Some (Inr (emit [Present] (Flush ctx1))))"

text \<open>A context in the middle of a frame, after an asynchronous upload was requested.\<close>

definition frame_ctx :: ContextDawn where
  "frame_ctx = updateAllFishData {BUFFERMAPPINGASYNC, DRAWPERMODEL}
     (ContextDawn_ctor\<lparr>mCurTotalInstance := 3, fishPers := Some 3,
        bindGroupFishPers := Some [True, True, True], fishPersBuffer := Some 3,
        stagingBuffer := Some 3\<rparr>)"

section \<open>Aquarium: population state and the frame step\<close>

text \<open>
  Modelled from the spec: the class \<open>Behavior\<close> is declared outside the sources; by section 3
  an event carries a frame countdown, an operation and a count, read by \<open>getFrame\<close>,
  \<open>getOp\<close>, \<open>getCount\<close> and written by \<open>setFrame\<close>.
\<close>

record Behavior =
  mFrame :: int
  mOp :: string
  mCount :: int

text \<open>
  The members of \<open>Aquarium\<close> that the population logic reads and writes. \<open>mFishBehavior\<close> is
  the queue, front first. The clock values \<open>g.start\<close> and \<open>g.then\<close> are doubles; their type
  is left open, since only their assignment matters here.
\<close>

record 't Aquarium =
  mCurFishCount :: int
  mPreFishCount :: int
  fishCount :: "int list"
  toggleBitset :: "TOGGLE set"
  mFishBehavior :: "Behavior list"
  g_start :: 't
  g_then :: 't
  mContext :: ContextDawn

text \<open>
  \<open>memset(dst, c, n)\<close> writes \<open>n\<close> bytes. \<open>fishCount\<close> is an array of five \<open>int\<close>s of four bytes
  each, read here in little-endian two's complement.
\<close>

definition memset :: "8 word list \<Rightarrow> 8 word \<Rightarrow> nat \<Rightarrow> fault + 8 word list" where
  "memset mem c n =
     (if n \<le> length mem then Inr (replicate n c @ drop n mem) else Inl OutOfBounds)"

definition load_int :: "8 word list \<Rightarrow> nat \<Rightarrow> int" where
  "load_int mem k =
     (let u = unat (mem ! (4 * k)) + 256 * unat (mem ! (4 * k + 1))
              + 65536 * unat (mem ! (4 * k + 2)) + 16777216 * unat (mem ! (4 * k + 3))
      in if u < 2147483648 then int u else int u - 4294967296)"

text \<open>
  \<open>Aquarium::Aquarium\<close>. \<open>raw\<close> is the content of the twenty bytes of \<open>fishCount\<close> before the
  constructor body runs, \<open>start0\<close> the uninitialised \<open>g.start\<close>, \<open>zero\<close> the value \<open>0.0\<close>.
\<close>

definition Aquarium_ctor :: "8 word list \<Rightarrow> 't \<Rightarrow> 't \<Rightarrow> fault + 't Aquarium" where
  "Aquarium_ctor raw start0 zero =
     bind_fault (memset raw 0 5) (\<lambda>mem.
       Inr \<lparr>mCurFishCount = 500, mPreFishCount = 0,
            fishCount = [load_int mem 0, load_int mem 1, load_int mem 2, load_int mem 3,
                         load_int mem 4],
            toggleBitset = {}, mFishBehavior = [],
            g_start = start0, g_then = zero,
            mContext = ContextDawn_ctor\<rparr>)"

text \<open>The scripted-population block of \<open>Aquarium::render\<close>.\<close>

definition render_behavior :: "'t Aquarium \<Rightarrow> fault + 't Aquarium" where
  "render_behavior a =
     (if SIMULATINGFISHCOMEANDGO \<in> toggleBitset a then
        (case mFishBehavior a of
           [] \<Rightarrow> Inr a
         | behave # rest \<Rightarrow>
             (let frame = mFrame behave
              in if frame = 0 then
                   bind_fault
                     (if mOp behave = ''+''
                      then int_add (mCurFishCount a) (mCount behave)
                      else int_sub (mCurFishCount a) (mCount behave))
                     (\<lambda>n. Inr (a\<lparr>mFishBehavior := rest, mCurFishCount := n\<rparr>))
                 else
                   bind_fault (int_sub frame 1)
                     (\<lambda>frame'. Inr (a\<lparr>mFishBehavior := behave\<lparr>mFrame := frame'\<rparr> # rest\<rparr>))))
      else Inr a)"



text \<open>The scripted-population block over \<open>n\<close> consecutive frames.\<close>

fun run_behavior :: "nat \<Rightarrow> 't Aquarium \<Rightarrow> fault + 't Aquarium" where
  "run_behavior 0 a = Inr a"
| "run_behavior (Suc n) a = bind_fault (render_behavior a) (run_behavior n)"

section \<open>Aquarium::updateAndDraw: the batched drawing pass\<close>

definition fishBegin :: "scene \<Rightarrow> TOGGLE set \<Rightarrow> int" where
  "fishBegin c toggles =
     (if ENABLEINSTANCEDDRAWS \<in> toggles then MODELSMALLFISHAINSTANCEDDRAWS c
      else MODELSMALLFISHA c)"

definition fishEnd :: "scene \<Rightarrow> TOGGLE set \<Rightarrow> int" where
  "fishEnd c toggles =
     (if ENABLEINSTANCEDDRAWS \<in> toggles then MODELBIGFISHBINSTANCEDDRAWS c
      else MODELBIGFISHB c)"

text \<open>
  The loop \<open>for (int i = 0; i <= MODELNAME::MODELMAX; ++i)\<close>; the result lists the indices
  \<open>i\<close> at which \<open>mAquariumModels[i]\<close> is read and drawn.
\<close>

function draw_models :: "scene \<Rightarrow> int \<Rightarrow> int \<Rightarrow> int \<Rightarrow> int list" where
  "draw_models c fb fe i =
     (if i \<le> MODELMAX c
      then (if i \<ge> MODELSMALLFISHA c \<and> (i < fb \<or> i > fe)
            then draw_models c fb fe (i + 1)
            else i # draw_models c fb fe (i + 1))
      else [])"
  by pat_completeness auto
termination
  by (relation "measure (\<lambda>(c, fb, fe, i). nat (MODELMAX c + 1 - i))") auto

declare draw_models.simps [simp del]

definition batched_draw_indices :: "scene \<Rightarrow> TOGGLE set \<Rightarrow> int list" where
  "batched_draw_indices c toggles = draw_models c (fishBegin c toggles) (fishEnd c toggles) 0"

section \<open>FPSTimer::update: the history arrays\<close>

text \<open>A read of a \<open>std::vector\<close> element by \<open>operator[]\<close>: outside the bounds it is a fault.\<close>

definition array_load :: "'a list \<Rightarrow> int \<Rightarrow> fault + 'a" where
  "array_load xs i =
     (if 0 \<le> i \<and> i < int (length xs) then Inr (xs ! nat i) else Inl OutOfBounds)"

text \<open>
  The loop that shifts both histories by one place. The values are floating-point numbers;
  their type is left open, since the statements below concern the indices only.
\<close>

function history_loop :: "int \<Rightarrow> int \<Rightarrow> 'v list \<times> 'v list \<Rightarrow> fault + ('v list \<times> 'v list)" where
  "history_loop n i (mHistoryFPS, mHistoryFrameTime) =
     (if i < n then
        bind_fault (array_load mHistoryFPS (i + 1)) (\<lambda>x.
        bind_fault (array_store mHistoryFPS i x) (\<lambda>mHistoryFPS'.
        bind_fault (array_load mHistoryFrameTime (i + 1)) (\<lambda>y.
        bind_fault (array_store mHistoryFrameTime i y) (\<lambda>mHistoryFrameTime'.
          history_loop n (i + 1) (mHistoryFPS', mHistoryFrameTime')))))
      else Inr (mHistoryFPS, mHistoryFrameTime))"
  by pat_completeness auto
termination
  by (relation "measure (\<lambda>(n, i, st). nat (n - i))") auto

declare history_loop.simps [simp del]

text \<open>
  The part of \<open>FPSTimer::update\<close> that touches the history arrays: the shift loop and the
  two stores at \<open>NUM_HISTORY_DATA - 1\<close>. The new average and frame time, computed before in
  floating point, are parameters.
\<close>

definition update_history ::
  "int \<Rightarrow> 'v \<Rightarrow> 'v \<Rightarrow> 'v list \<times> 'v list \<Rightarrow> fault + ('v list \<times> 'v list)" where
  "update_history NUM_HISTORY_DATA mAverageFPS frameTime st =
     bind_fault (history_loop NUM_HISTORY_DATA 0 st) (\<lambda>(mHistoryFPS, mHistoryFrameTime).
     bind_fault (array_store mHistoryFPS (NUM_HISTORY_DATA - 1) mAverageFPS) (\<lambda>mHistoryFPS'.
     bind_fault (array_store mHistoryFrameTime (NUM_HISTORY_DATA - 1) frameTime)
       (\<lambda>mHistoryFrameTime'. Inr (mHistoryFPS', mHistoryFrameTime'))))"

section \<open>Example states\<close>




definition scripted_example :: "nat Aquarium" where
  "scripted_example =
     \<lparr>mCurFishCount = 500, mPreFishCount = 500, fishCount = [396, 50, 50, 2, 2],
      toggleBitset = {SIMULATINGFISHCOMEANDGO, DRAWPERMODEL},
      mFishBehavior = [\<lparr>mFrame = 1, mOp = ''+'', mCount = 10\<rparr>,
                       \<lparr>mFrame = 0, mOp = ''-'', mCount = 5\<rparr>],
      g_start = 0, g_then = 0, mContext = ContextDawn_ctor\<rparr>"

section \<open>Well-formedness of the parameters and loop invariants\<close>

text \<open>The two fixed medium-class counts are not negative.\<close>

definition consts_ok :: "scene \<Rightarrow> bool" where
  "consts_ok c = (0 \<le> g_numFishLeftSmall c \<and> 0 \<le> g_numFishLeftBig c)"

text \<open>
  The species table fits the five-element \<open>fishCount\<close> array, no two species share a slot,
  and some species has the class that receives the remaining balance.
\<close>

definition table_ok :: "scene \<Rightarrow> bool" where
  "table_ok c = (distinct (map (slot c) (fishTable c)) \<and>
     (\<forall>f\<in>set (fishTable c). 0 \<le> slot c f \<and> slot c f < 5) \<and>
     (\<exists>f\<in>set (fishTable c). fishType f = SMALL))"

text \<open>
  Invariant of the allocation loops for a requested total \<open>T\<close>: the slots in \<open>S\<close> already
  hold their counts, which together with the remaining pool make up \<open>T\<close>.
\<close>

definition alloc_inv :: "int \<Rightarrow> int set \<Rightarrow> int \<times> int list \<Rightarrow> bool" where
  "alloc_inv T S st =
     (case st of (numLeft, fc) \<Rightarrow>
        length fc = 5 \<and> 0 \<le> numLeft \<and> (\<forall>k\<in>S. 0 \<le> fc ! nat k) \<and>
        numLeft + (\<Sum>k\<in>S. fc ! nat k) = T)"





text \<open>A copy from the staging buffer is among the commands of the frame.\<close>

fun is_copy :: "command \<Rightarrow> bool" where
  "is_copy (CopyStagingToFishPers n) = True"
| "is_copy c = False"

definition copy_queued :: "ContextDawn \<Rightarrow> bool" where
  "copy_queued ctx = list_ex is_copy (mCommandBuffers ctx)"

text \<open>The signed change of the total by an event, and what identifies an event in the queue.\<close>

definition delta :: "Behavior \<Rightarrow> int" where
  "delta b = (if mOp b = ''+'' then mCount b else - mCount b)"

definition event :: "Behavior \<Rightarrow> string \<times> int" where
  "event b = (mOp b, mCount b)"


text \<open>
  The declared order of the \<open>MODELNAME\<close> enumerators: the fish models, then their
  instanced-draw variants, then \<open>MODELMAX\<close>.
\<close>

definition enum_ok :: "scene \<Rightarrow> bool" where
  "enum_ok c =
     (0 \<le> MODELSMALLFISHA c \<and> MODELSMALLFISHA c \<le> MODELBIGFISHB c \<and>
      MODELBIGFISHB c < MODELSMALLFISHAINSTANCEDDRAWS c \<and>
      MODELSMALLFISHAINSTANCEDDRAWS c \<le> MODELBIGFISHBINSTANCEDDRAWS c \<and>
      MODELBIGFISHBINSTANCEDDRAWS c < MODELMAX c)"

section \<open>Properties of the fish-count planner\<close>

lemma c_div_nonneg: "0 \<le> a \<Longrightarrow> 0 \<le> c_div a 10"
  by (simp add: c_div_def sgn_if pos_imp_zdiv_nonneg_iff)

lemma numfloat_of_bounds:
  assumes "consts_ok c" "0 \<le> T" "0 \<le> numLeft"
  shows "0 \<le> numfloat_of c T i numLeft \<and> numfloat_of c T i numLeft \<le> numLeft"
  using assms c_div_nonneg[of T]
  by (auto simp: numfloat_of_def consts_ok_def Let_def min_def)

lemma numfloat_of_small: "i = FISHENUM_val SMALL \<Longrightarrow> numfloat_of c T i numLeft = numLeft"
  by (simp add: numfloat_of_def)

lemma species_loop_inv:
  assumes "consts_ok c" "0 \<le> T"
  shows "alloc_inv T S (numLeft, fc) \<Longrightarrow> finite S \<Longrightarrow> \<forall>k\<in>S. 0 \<le> k \<Longrightarrow>
    distinct (map (slot c) fs) \<Longrightarrow>
    \<forall>f\<in>set fs. 0 \<le> slot c f \<and> slot c f < 5 \<and>
       (FISHENUM_val (fishType f) = i \<longrightarrow> slot c f \<notin> S) \<Longrightarrow>
    \<exists>nl' fc'. species_loop c T i fs (numLeft, fc) = Inr (nl', fc') \<and>
      alloc_inv T (S \<union> slot c ` {f \<in> set fs. FISHENUM_val (fishType f) = i}) (nl', fc') \<and>
      (numLeft = 0 \<longrightarrow> nl' = 0) \<and>
      (i = FISHENUM_val SMALL \<and> (\<exists>f\<in>set fs. fishType f = SMALL) \<longrightarrow> nl' = 0)"
proof (induction fs arbitrary: S numLeft fc)
  case Nil
  then show ?case by simp
next
  case (Cons f rest)
  show ?case
  proof (cases "FISHENUM_val (fishType f) = i")
    case False
    have eq: "{g \<in> set (f # rest). FISHENUM_val (fishType g) = i} = {g \<in> set rest. FISHENUM_val (fishType g) = i}"
      using False by auto
    have nosmall: "i = FISHENUM_val SMALL \<Longrightarrow> fishType f \<noteq> SMALL" using False by auto
    from Cons.IH[of S numLeft fc] Cons.prems
    obtain nl' fc' where r: "species_loop c T i rest (numLeft, fc) = Inr (nl', fc')"
      "alloc_inv T (S \<union> slot c ` {f \<in> set rest. FISHENUM_val (fishType f) = i}) (nl', fc')"
      "numLeft = 0 \<longrightarrow> nl' = 0"
      "i = FISHENUM_val SMALL \<and> (\<exists>f\<in>set rest. fishType f = SMALL) \<longrightarrow> nl' = 0"
      by auto
    have run: "species_loop c T i (f # rest) (numLeft, fc) = Inr (nl', fc')"
      using False r(1) by simp
    have sm: "i = FISHENUM_val SMALL \<and> (\<exists>g\<in>set (f # rest). fishType g = SMALL) \<longrightarrow> nl' = 0"
      using r(4) nosmall by auto
    show ?thesis using run r(2) r(3) sm unfolding eq by blast
  next
    case True
    define nf where "nf = numfloat_of c T i numLeft"
    define k where "k = slot c f"
    define fc1 where "fc1 = fc[nat k := nf]"
    from Cons.prems have inv: "alloc_inv T S (numLeft, fc)" and kS: "k \<notin> S" and k0: "0 \<le> k" and k5: "k < 5"
      and fin: "finite S" and Spos: "\<forall>k\<in>S. 0 \<le> k"
      using True by (auto simp: k_def)
    from inv have len: "length fc = 5" and nl0: "0 \<le> numLeft" by (auto simp: alloc_inv_def)
    have nfb: "0 \<le> nf" "nf \<le> numLeft" using numfloat_of_bounds[OF assms nl0, of i] by (auto simp: nf_def)
    have st: "array_store fc (slot c f) nf = Inr fc1"
      using k0 k5 len by (simp add: array_store_def fc1_def k_def)
    have same: "\<forall>j\<in>S. fc1 ! nat j = fc ! nat j"
    proof
      fix j assume "j \<in> S"
      then have "j \<noteq> k" "0 \<le> j" using kS Spos by auto
      then have "nat k \<noteq> nat j" using k0 by simp
      then show "fc1 ! nat j = fc ! nat j" by (simp add: fc1_def)
    qed
    have atk: "fc1 ! nat k = nf" using k0 k5 len by (simp add: fc1_def)
    have sumS: "(\<Sum>j\<in>S. fc1 ! nat j) = (\<Sum>j\<in>S. fc ! nat j)"
      using same by (intro sum.cong) auto
    have inv1: "alloc_inv T (insert k S) (numLeft - nf, fc1)"
      using inv nfb same atk sumS fin kS
      by (auto simp: alloc_inv_def fc1_def)
    have d: "distinct (map (slot c) rest)" using Cons.prems by simp
    have dk: "k \<notin> slot c ` set rest" using Cons.prems(4) by (simp add: k_def)
    have r2: "\<forall>g\<in>set rest. 0 \<le> slot c g \<and> slot c g < 5 \<and>
       (FISHENUM_val (fishType g) = i \<longrightarrow> slot c g \<notin> insert k S)"
    proof
      fix g assume g: "g \<in> set rest"
      then have "slot c g \<noteq> k" using dk by (metis imageI)
      then show "0 \<le> slot c g \<and> slot c g < 5 \<and>
         (FISHENUM_val (fishType g) = i \<longrightarrow> slot c g \<notin> insert k S)"
        using Cons.prems(5) g by simp
    qed
    from Cons.IH[OF inv1 _ _ d r2] fin Spos k0
    obtain nl' fc' where r: "species_loop c T i rest (numLeft - nf, fc1) = Inr (nl', fc')"
      "alloc_inv T (insert k S \<union> slot c ` {f \<in> set rest. FISHENUM_val (fishType f) = i}) (nl', fc')"
      "numLeft - nf = 0 \<longrightarrow> nl' = 0"
      "i = FISHENUM_val SMALL \<and> (\<exists>f\<in>set rest. fishType f = SMALL) \<longrightarrow> nl' = 0"
      by auto
    have eq: "S \<union> slot c ` {g \<in> set (f # rest). FISHENUM_val (fishType g) = i}
        = insert k S \<union> slot c ` {f \<in> set rest. FISHENUM_val (fishType f) = i}"
      using True by (auto simp: k_def)
    have run: "species_loop c T i (f # rest) (numLeft, fc) = Inr (nl', fc')"
      using True st r(1) by (simp add: bind_fault_def Let_def nf_def)
    have z: "numLeft = 0 \<longrightarrow> nl' = 0" using r(3) nfb by auto
    have sm: "i = FISHENUM_val SMALL \<and> (\<exists>g\<in>set (f # rest). fishType g = SMALL) \<longrightarrow> nl' = 0"
      using r(3) numfloat_of_small[of i c T numLeft] by (auto simp: nf_def)
    show ?thesis using run r(2) z sm unfolding eq by blast
  qed
qed

lemma class_loop_unfold:
  "class_loop c cur 0 st =
     bind_fault (species_loop c cur 0 (fishTable c) st) (\<lambda>s1.
     bind_fault (species_loop c cur 1 (fishTable c) s1) (\<lambda>s2.
     species_loop c cur 2 (fishTable c) s2))"
  by (simp add: class_loop.simps[of c cur 0] class_loop.simps[of c cur 1]
      class_loop.simps[of c cur 2] class_loop.simps[of c cur 3] FISHENUM_MAX_def bind_fault_def
      split: sum.splits)

lemma slot_class_disjoint:
  assumes "distinct (map (slot c) fs)" "f \<in> set fs" "FISHENUM_val (fishType f) = i"
  shows "slot c f \<notin> slot c ` {g \<in> set fs. FISHENUM_val (fishType g) = j \<and> j \<noteq> i}"
proof
  assume "slot c f \<in> slot c ` {g \<in> set fs. FISHENUM_val (fishType g) = j \<and> j \<noteq> i}"
  then obtain g where g: "g \<in> set fs" "FISHENUM_val (fishType g) = j" "j \<noteq> i" "slot c g = slot c f"
    by auto
  from assms(1) have "inj_on (slot c) (set fs)" by (simp add: distinct_map)
  with g(1,4) assms(2) have "g = f" by (auto dest: inj_onD)
  with g assms(3) show False by simp
qed

lemma reference_scene_ok: "consts_ok reference_scene \<and> table_ok reference_scene"
  by (simp add: consts_ok_def table_ok_def reference_scene_def slot_def)

lemma calculateFishCount_total:
  assumes "0 \<le> T" and "consts_ok c" and "table_ok c" and "length fc0 = 5"
  shows "\<exists>fc'. calculateFishCount c T fc0 = Inr fc' \<and> length fc' = 5 \<and>
           (\<forall>f\<in>set (fishTable c). 0 \<le> fc' ! nat (slot c f)) \<and>
           (\<Sum>f\<leftarrow>fishTable c. fc' ! nat (slot c f)) = T"
proof -
  let ?tab = "fishTable c"
  let ?cls = "\<lambda>i. slot c ` {f \<in> set ?tab. FISHENUM_val (fishType f) = i}"
  from assms(3) have d: "distinct (map (slot c) ?tab)"
    and rng: "\<forall>f\<in>set ?tab. 0 \<le> slot c f \<and> slot c f < 5"
    and sm: "\<exists>f\<in>set ?tab. fishType f = SMALL"
    by (auto simp: table_ok_def)
  have inv0: "alloc_inv T {} (T, fc0)" using assms by (simp add: alloc_inv_def)
  have c0: "\<forall>f\<in>set ?tab. 0 \<le> slot c f \<and> slot c f < 5 \<and>
       (FISHENUM_val (fishType f) = 0 \<longrightarrow> slot c f \<notin> {})" using rng by simp
  from species_loop_inv[OF assms(2,1) inv0 _ _ d c0]
  obtain n1 f1 where s1: "species_loop c T 0 ?tab (T, fc0) = Inr (n1, f1)"
    and inv1: "alloc_inv T (?cls 0) (n1, f1)" by auto
  have fin1: "finite (?cls 0)" by simp
  have pos1: "\<forall>k\<in>?cls 0. 0 \<le> k" using rng by auto
  have c1: "\<forall>f\<in>set ?tab. 0 \<le> slot c f \<and> slot c f < 5 \<and>
       (FISHENUM_val (fishType f) = 1 \<longrightarrow> slot c f \<notin> ?cls 0)"
    using rng slot_class_disjoint[OF d, where i=1 and j=0] by auto
  from species_loop_inv[OF assms(2,1) inv1 fin1 pos1 d c1]
  obtain n2 f2 where s2: "species_loop c T 1 ?tab (n1, f1) = Inr (n2, f2)"
    and inv2: "alloc_inv T (?cls 0 \<union> ?cls 1) (n2, f2)" by auto
  have fin2: "finite (?cls 0 \<union> ?cls 1)" by simp
  have pos2: "\<forall>k\<in>?cls 0 \<union> ?cls 1. 0 \<le> k" using rng by auto
  have c2: "\<forall>f\<in>set ?tab. 0 \<le> slot c f \<and> slot c f < 5 \<and>
       (FISHENUM_val (fishType f) = 2 \<longrightarrow> slot c f \<notin> ?cls 0 \<union> ?cls 1)"
    using rng slot_class_disjoint[OF d, where i=2 and j=0] slot_class_disjoint[OF d, where i=2 and j=1] by auto
  from species_loop_inv[OF assms(2,1) inv2 fin2 pos2 d c2] sm
  obtain n3 f3 where s3: "species_loop c T 2 ?tab (n2, f2) = Inr (n3, f3)"
    and inv3: "alloc_inv T (?cls 0 \<union> ?cls 1 \<union> ?cls 2) (n3, f3)" and z: "n3 = 0" by auto
  have all: "?cls 0 \<union> ?cls 1 \<union> ?cls 2 = set (map (slot c) ?tab)"
  proof -
    have "\<And>f. FISHENUM_val (fishType f) = 0 \<or> FISHENUM_val (fishType f) = 1 \<or> FISHENUM_val (fishType f) = 2"
      by (metis FISHENUM.exhaust FISHENUM_val.simps)
    then show ?thesis by auto
  qed
  have run: "calculateFishCount c T fc0 = Inr f3"
    by (simp add: calculateFishCount_def class_loop_unfold s1 s2 s3 bind_fault_def)
  have sumeq: "(\<Sum>f\<leftarrow>?tab. f3 ! nat (slot c f)) = (\<Sum>k\<in>set (map (slot c) ?tab). f3 ! nat k)"
    using sum_list_distinct_conv_sum_set[OF d, of "\<lambda>k. f3 ! nat k"] by (simp add: comp_def)
  from inv3 z have "length f3 = 5" "\<forall>k\<in>set (map (slot c) ?tab). 0 \<le> f3 ! nat k"
    "(\<Sum>k\<in>set (map (slot c) ?tab). f3 ! nat k) = T"
    unfolding all by (auto simp: alloc_inv_def)
  with run sumeq show ?thesis by auto
qed

text \<open>
  Claim C1. For every requested total \<open>T \<ge> 0\<close>, \<open>calculateFishCount\<close> run over the species
  table returns without a fault, gives every species of the table a count that is not
  negative, and the counts of the species add up to exactly \<open>T\<close>. The table and the tuning
  constants are declared outside the sources; the theorem holds for every table that fits
  the five-element array without sharing slots and contains a species of the remaining
  (small) class, and for all thresholds, the two fixed medium counts being non-negative.
\<close>

theorem calculateFishCount_sum:
  assumes "0 \<le> T" and "consts_ok c" and "table_ok c" and "length fc0 = 5"
  shows "\<exists>fc'. calculateFishCount c T fc0 = Inr fc' \<and> length fc' = 5 \<and>
           (\<forall>f\<in>set (fishTable c). 0 \<le> fc' ! nat (slot c f)) \<and>
           (\<Sum>f\<leftarrow>fishTable c. fc' ! nat (slot c f)) = T"
  using assms by (rule calculateFishCount_total)

theorem calculateFishCount_sum_witness:
  "(0::int) \<le> 500 \<and> consts_ok reference_scene \<and> table_ok reference_scene \<and>
   length [0, 0, 0, 0, 0 :: int] = 5 \<and>
   (\<exists>fc'. calculateFishCount reference_scene 500 [0, 0, 0, 0, 0] = Inr fc' \<and> length fc' = 5 \<and>
      (\<forall>f\<in>set (fishTable reference_scene). 0 \<le> fc' ! nat (slot reference_scene f)) \<and>
      (\<Sum>f\<leftarrow>fishTable reference_scene. fc' ! nat (slot reference_scene f)) = 500)"
  using calculateFishCount_sum [of 500 reference_scene "[0, 0, 0, 0, 0]"] reference_scene_ok
  by simp

section \<open>Properties of the reallocation\<close>









text \<open>
  After a shrink the release pass visits only the first \<open>mPreTotalInstance\<close> elements of the
  old bind-group array: growing 3 to 4 by way of 2 never releases the third bind group.
\<close>

lemma reallocResource_shrink_grow_leak:
  "bind_fault (bind_fault (reallocResource 0 3 False ContextDawn_ctor)
      (reallocResource 3 2 False)) (reallocResource 2 4 False) = Inr ctx \<Longrightarrow>
   Released (BindGroup 2) \<notin> set (trace ctx) \<and> Created (BindGroup 2) \<in> set (trace ctx)"
  by (auto simp: reallocResource_def ContextDawn_ctor_def destoryFishResource_def Let_def
      bind_fault_def emit_def release_handle_def array_store_def release_group_def
      make_groups.simps[of _ 0] make_groups.simps[of _ 1] make_groups.simps[of _ 2]
      make_groups.simps[of _ 3] make_groups.simps[of _ 4]
      release_groups.simps[of _ 0] release_groups.simps[of _ 1] release_groups.simps[of _ 2])


section \<open>Properties of the frame submission\<close>

lemma wait_for_mapping_trace:
  "wait_for_mapping sched ctx = Some (Inr ctx') \<Longrightarrow>
   (mappedData ctx \<longrightarrow> copy_queued ctx) \<Longrightarrow>
   \<exists>k. k \<le> length sched \<and> mappedData ctx' \<and> copy_queued ctx' \<and>
     trace ctx' = trace ctx @ replicate k DeviceTick @
        (if mappedData ctx then [] else [MapWriteCallbackFired]) \<and>
     (mappedData ctx \<longrightarrow> k = 0) \<and> (\<not> mappedData ctx \<longrightarrow> 0 < k)"
proof (induction sched arbitrary: ctx)
  case Nil
  then show ?case by (auto split: if_splits)
next
  case (Cons outcome rest)
  show ?case
  proof (cases "mappedData ctx")
    case True
    with Cons.prems show ?thesis by auto
  next
    case False
    from Cons.prems(1) False obtain ctx1 where w: "WaitABit outcome ctx = Inr ctx1"
      and r: "wait_for_mapping rest ctx1 = Some (Inr ctx')"
      by (auto split: sum.splits)
    show ?thesis
    proof (cases "mappedData ctx1")
      case True
      with r have eq: "ctx' = ctx1" by (cases rest) auto
      from w True False have fired: "trace ctx1 = trace ctx @ [DeviceTick, MapWriteCallbackFired]"
        and cq: "copy_queued ctx1"
        by (auto simp: WaitABit_def device_tick_def MapWriteCallback_def emit_def Let_def
            copy_queued_def split: if_splits)
      show ?thesis using True False fired cq eq
        by (intro exI[of _ 1]) simp
    next
      case f1: False
      from w f1 have t1: "trace ctx1 = trace ctx @ [DeviceTick]"
        by (auto simp: WaitABit_def device_tick_def MapWriteCallback_def emit_def Let_def
            split: if_splits)
      from Cons.IH[OF r] f1 obtain k where k: "k \<le> length rest" "mappedData ctx'" "copy_queued ctx'"
        "trace ctx' = trace ctx1 @ replicate k DeviceTick @ [MapWriteCallbackFired]" "0 < k"
        by auto
      have "trace ctx' = trace ctx @ replicate (Suc k) DeviceTick @ [MapWriteCallbackFired]"
        using k(4) t1 by simp
      with k False show ?thesis by (intro exI[of _ "Suc k"]) simp
    qed
  qed
qed

lemma wait_for_mapping_returns:
  "mapRequested ctx \<Longrightarrow> \<not> mappedData ctx \<Longrightarrow>
   \<exists>ctx'. wait_for_mapping (replicate j Idle @ MapDone # rest) ctx = Some (Inr ctx')"
proof (induction j arbitrary: ctx)
  case 0
  then show ?case
    by (cases rest)
       (simp_all add: WaitABit_def device_tick_def MapWriteCallback_def emit_def Let_def)
next
  case (Suc j)
  let ?ctx1 = "emit [DeviceTick] ctx"
  have w: "WaitABit Idle ctx = Inr ?ctx1" by (simp add: WaitABit_def device_tick_def Let_def)
  have "mapRequested ?ctx1" "\<not> mappedData ?ctx1" using Suc.prems by (simp_all add: emit_def)
  from Suc.IH[OF this] w Suc.prems show ?case by simp
qed

text \<open>
  The polling loop ends, and the frame is submitted, as soon as the backend completes the
  outstanding request.
\<close>

lemma DoFlush_returns:
  assumes "BUFFERMAPPINGASYNC \<in> toggles" "mapRequested ctx" "\<not> mappedData ctx"
  shows "\<exists>ctx'. DoFlush toggles (replicate j Idle @ MapDone # rest) ctx = Some (Inr ctx')"
proof -
  let ?ctx1 = "ctx\<lparr>mCommandBuffers := mCommandBuffers ctx @ [RenderPassCommands]\<rparr>"
  have "mapRequested ?ctx1" "\<not> mappedData ?ctx1" using assms by simp_all
  from wait_for_mapping_returns[OF this, of j rest] obtain ctx2 where
    "wait_for_mapping (replicate j Idle @ MapDone # rest) ?ctx1 = Some (Inr ctx2)" by blast
  with assms(1) show ?thesis by (simp add: DoFlush_def Let_def)
qed

text \<open>
  Claim C3. With asynchronous buffer mapping enabled, whenever \<open>DoFlush\<close> reaches the
  submission, the submitted command buffers contain the copy from the staging buffer, which
  only the map-write callback appends; if the callback had not fired when \<open>DoFlush\<close> was
  entered, it fires during the wait, which consists of device ticks only (at least one),
  and the submission comes after it. The hypothesis on the entry state holds at the start
  of every frame, where \<open>mappedData\<close> is null.
\<close>

theorem DoFlush_submits_after_copy:
  assumes "BUFFERMAPPINGASYNC \<in> toggles"
    and "mappedData ctx \<longrightarrow> copy_queued ctx"
    and "DoFlush toggles sched ctx = Some (Inr ctx')"
  shows "\<exists>k batch. k \<le> length sched \<and>
     trace ctx' = trace ctx @ replicate k DeviceTick
        @ (if mappedData ctx then [] else [MapWriteCallbackFired])
        @ [StagingUnmap, QueueSubmit batch, Present] \<and>
     list_ex is_copy batch \<and>
     (\<not> mappedData ctx \<longrightarrow> 0 < k)"
proof -
  let ?ctx1 = "ctx\<lparr>mCommandBuffers := mCommandBuffers ctx @ [RenderPassCommands]\<rparr>"
  from assms(1,3) obtain ctx2 where w: "wait_for_mapping sched ?ctx1 = Some (Inr ctx2)"
    and c': "ctx' = emit [Present] (Flush (emit [StagingUnmap] (ctx2\<lparr>mappedData := False\<rparr>)))"
    by (auto simp: DoFlush_def Let_def split: option.splits sum.splits)
  have inv1: "mappedData ?ctx1 \<longrightarrow> copy_queued ?ctx1"
    using assms(2) by (simp add: copy_queued_def)
  from wait_for_mapping_trace[OF w inv1] obtain k where k: "k \<le> length sched"
    "copy_queued ctx2"
    "trace ctx2 = trace ctx @ replicate k DeviceTick @
        (if mappedData ctx then [] else [MapWriteCallbackFired])"
    "\<not> mappedData ctx \<longrightarrow> 0 < k"
    by auto
  have "trace ctx' = trace ctx @ replicate k DeviceTick
        @ (if mappedData ctx then [] else [MapWriteCallbackFired])
        @ [StagingUnmap, QueueSubmit (mCommandBuffers ctx2), Present]"
    using c' k(3) by (simp add: emit_def Flush_def)
  moreover have "list_ex is_copy (mCommandBuffers ctx2)"
    using k(2) by (simp add: copy_queued_def)
  ultimately show ?thesis using k(1,4) by blast
qed

theorem DoFlush_submits_after_copy_witness:
  "BUFFERMAPPINGASYNC \<in> {BUFFERMAPPINGASYNC, DRAWPERMODEL} \<and>
   \<not> mappedData frame_ctx \<and>
   (\<exists>ctx'. DoFlush {BUFFERMAPPINGASYNC, DRAWPERMODEL} [Idle, Idle, MapDone] frame_ctx
             = Some (Inr ctx') \<and>
     (\<exists>k batch. k \<le> length [Idle, Idle, MapDone] \<and>
        trace ctx' = trace frame_ctx @ replicate k DeviceTick @ [MapWriteCallbackFired]
          @ [StagingUnmap, QueueSubmit batch, Present] \<and>
        list_ex is_copy batch \<and> 0 < k))"
proof -
  have nm: "\<not> mappedData frame_ctx"
    by (simp add: frame_ctx_def updateAllFishData_def emit_def ContextDawn_ctor_def)
  then have m: "mappedData frame_ctx \<longrightarrow> copy_queued frame_ctx" by simp
  have t: "BUFFERMAPPINGASYNC \<in> {BUFFERMAPPINGASYNC, DRAWPERMODEL}" by simp
  obtain ctx' where r: "DoFlush {BUFFERMAPPINGASYNC, DRAWPERMODEL} [Idle, Idle, MapDone] frame_ctx
             = Some (Inr ctx')"
    by (simp add: DoFlush_def frame_ctx_def updateAllFishData_def emit_def ContextDawn_ctor_def
        WaitABit_def device_tick_def MapWriteCallback_def Let_def)
  from DoFlush_submits_after_copy [OF t m r] nm
  have "\<exists>k batch. k \<le> length [Idle, Idle, MapDone] \<and>
        trace ctx' = trace frame_ctx @ replicate k DeviceTick @ [MapWriteCallbackFired]
          @ [StagingUnmap, QueueSubmit batch, Present] \<and>
        list_ex is_copy batch \<and> 0 < k"
    by simp
  with nm t r show ?thesis by blast
qed

section \<open>Properties of the behavior queue\<close>

lemma run_behavior_snoc:
  "run_behavior (Suc n) a = bind_fault (run_behavior n a) render_behavior"
proof (induction n arbitrary: a)
  case 0
  show ?case by (cases "render_behavior a") (simp_all add: bind_fault_def)
next
  case (Suc n)
  show ?case
  proof (cases "render_behavior a")
    case (Inl e)
    then show ?thesis by (simp add: bind_fault_def)
  next
    case (Inr a1)
    have "run_behavior (Suc (Suc n)) a = run_behavior (Suc n) a1"
      using Inr by (simp add: bind_fault_def)
    also have "\<dots> = bind_fault (run_behavior n a1) render_behavior" by (rule Suc.IH)
    also have "\<dots> = bind_fault (run_behavior (Suc n) a) render_behavior"
      using Inr by (simp add: bind_fault_def)
    finally show ?thesis .
  qed
qed

lemma render_behavior_countdown:
  assumes "SIMULATINGFISHCOMEANDGO \<in> toggleBitset a" "mFishBehavior a = b # rest"
    "0 < mFrame b" "mFrame b \<le> INT_MAX"
  shows "render_behavior a = Inr (a\<lparr>mFishBehavior := b\<lparr>mFrame := mFrame b - 1\<rparr> # rest\<rparr>)"
  using assms by (simp add: render_behavior_def Let_def int_sub_def bind_fault_def INT_MIN_def INT_MAX_def)

lemma render_behavior_apply:
  assumes "SIMULATINGFISHCOMEANDGO \<in> toggleBitset a" "mFishBehavior a = b # rest" "mFrame b = 0"
  shows "render_behavior a =
     bind_fault (if mOp b = ''+'' then int_add (mCurFishCount a) (mCount b)
                 else int_sub (mCurFishCount a) (mCount b))
       (\<lambda>n. Inr (a\<lparr>mFishBehavior := rest, mCurFishCount := n\<rparr>))"
  using assms by (simp add: render_behavior_def Let_def)

lemma run_behavior_countdown:
  "SIMULATINGFISHCOMEANDGO \<in> toggleBitset a \<Longrightarrow> mFishBehavior a = b # rest \<Longrightarrow>
   mFrame b = int k \<Longrightarrow> int k \<le> INT_MAX \<Longrightarrow> m \<le> k \<Longrightarrow>
   run_behavior m a = Inr (a\<lparr>mFishBehavior := b\<lparr>mFrame := int (k - m)\<rparr> # rest\<rparr>)"
proof (induction m)
  case 0
  have "b\<lparr>mFrame := int k\<rparr> = b" using "0.prems"(3) by simp
  then have "a\<lparr>mFishBehavior := b\<lparr>mFrame := int (k - 0)\<rparr> # rest\<rparr> = a"
    using "0.prems"(2) by simp
  then show ?case by simp
next
  case (Suc m)
  let ?b = "b\<lparr>mFrame := int (k - m)\<rparr>"
  let ?a = "a\<lparr>mFishBehavior := ?b # rest\<rparr>"
  have r: "run_behavior m a = Inr ?a" using Suc by simp
  have pos: "0 < mFrame ?b" "mFrame ?b \<le> INT_MAX" using Suc.prems by simp_all
  have t: "SIMULATINGFISHCOMEANDGO \<in> toggleBitset ?a" "mFishBehavior ?a = ?b # rest"
    using Suc.prems by simp_all
  have eq: "int (k - m) - 1 = int (k - Suc m)" using Suc.prems by simp
  have "render_behavior ?a = Inr (?a\<lparr>mFishBehavior := ?b\<lparr>mFrame := mFrame ?b - 1\<rparr> # rest\<rparr>)"
    by (rule render_behavior_countdown[OF t pos])
  then have "render_behavior ?a = Inr (a\<lparr>mFishBehavior := b\<lparr>mFrame := int (k - Suc m)\<rparr> # rest\<rparr>)"
    using eq by simp
  then show ?case using r by (simp only: run_behavior_snoc bind_fault_def sum.case)
qed

lemma render_behavior_step:
  assumes "render_behavior a = Inr a'"
  shows "(map event (mFishBehavior a') = map event (mFishBehavior a) \<and>
          mCurFishCount a' = mCurFishCount a) \<or>
         (\<exists>b rest. mFishBehavior a = b # rest \<and> mFishBehavior a' = rest \<and>
            mCurFishCount a' = mCurFishCount a + delta b)"
proof (cases "SIMULATINGFISHCOMEANDGO \<in> toggleBitset a")
  case False
  with assms show ?thesis by (simp add: render_behavior_def)
next
  case True
  show ?thesis
  proof (cases "mFishBehavior a")
    case Nil
    with True assms show ?thesis by (simp add: render_behavior_def)
  next
    case (Cons b rest)
    show ?thesis
    proof (cases "mFrame b = 0")
      case z: True
      from assms render_behavior_apply[OF True Cons z]
      have "mFishBehavior a' = rest \<and> mCurFishCount a' = mCurFishCount a + delta b"
        by (auto simp: bind_fault_def int_add_def int_sub_def delta_def split: if_splits)
      with Cons show ?thesis by simp
    next
      case nz: False
      from assms True Cons nz
      have "map event (mFishBehavior a') = map event (mFishBehavior a) \<and>
          mCurFishCount a' = mCurFishCount a"
        by (auto simp: render_behavior_def Let_def bind_fault_def int_sub_def event_def
            split: if_splits)
      then show ?thesis by simp
    qed
  qed
qed

lemma map_delta_event:
  "map delta bs = map (\<lambda>e. if fst e = ''+'' then snd e else - snd e) (map event bs)"
  by (simp add: delta_def event_def)

lemma run_behavior_prefix:
  "run_behavior n a = Inr a' \<Longrightarrow>
   \<exists>j\<le>n. map event (mFishBehavior a') = drop j (map event (mFishBehavior a)) \<and>
     mCurFishCount a' = mCurFishCount a + sum_list (map delta (take j (mFishBehavior a)))"
proof (induction n arbitrary: a)
  case 0
  then show ?case by simp
next
  case (Suc n)
  from Suc.prems obtain a1 where s: "render_behavior a = Inr a1" and r: "run_behavior n a1 = Inr a'"
    by (cases "render_behavior a") (simp_all add: bind_fault_def)
  from Suc.IH[OF r] obtain j where j: "j \<le> n"
    "map event (mFishBehavior a') = drop j (map event (mFishBehavior a1))"
    "mCurFishCount a' = mCurFishCount a1 + sum_list (map delta (take j (mFishBehavior a1)))"
    by blast
  from render_behavior_step[OF s] show ?case
  proof
    assume same: "map event (mFishBehavior a1) = map event (mFishBehavior a) \<and>
          mCurFishCount a1 = mCurFishCount a"
    have d: "map delta (mFishBehavior a1) = map delta (mFishBehavior a)"
      using same map_delta_event[of "mFishBehavior a1"] map_delta_event[of "mFishBehavior a"]
      by simp
    have "map delta (take j (mFishBehavior a1)) = map delta (take j (mFishBehavior a))"
      using d by (simp add: take_map[symmetric])
    with j same show ?thesis by (intro exI[of _ j]) simp
  next
    assume "\<exists>b rest. mFishBehavior a = b # rest \<and> mFishBehavior a1 = rest \<and>
            mCurFishCount a1 = mCurFishCount a + delta b"
    then obtain b rest where p: "mFishBehavior a = b # rest" "mFishBehavior a1 = rest"
      "mCurFishCount a1 = mCurFishCount a + delta b" by blast
    with j show ?thesis by (intro exI[of _ "Suc j"]) simp
  qed
qed

text \<open>
  Claim C4. With the scripted population enabled, a head event with countdown \<open>k\<close> has its
  countdown lowered by exactly one in each of the next \<open>k\<close> steps, the queue being otherwise
  unchanged, and step \<open>k + 1\<close> pops it and applies its delta to the total (a countdown of 0
  is applied by the very next step). Over any \<open>n\<close> steps at most \<open>n\<close> events are popped,
  the queue left is the input queue without its first \<open>j\<close> events, and the total has changed
  by the deltas of exactly those first \<open>j\<close> events: events are applied in input order, at
  most one per step.
\<close>

theorem behavior_queue_fifo:
  "(SIMULATINGFISHCOMEANDGO \<in> toggleBitset a \<and> mFishBehavior a = b # rest \<and>
    mFrame b = int k \<and> int k \<le> INT_MAX \<longrightarrow>
      (\<forall>m\<le>k. run_behavior m a =
                 Inr (a\<lparr>mFishBehavior := b\<lparr>mFrame := int (k - m)\<rparr> # rest\<rparr>)) \<and>
      run_behavior (Suc k) a =
        bind_fault (if mOp b = ''+'' then int_add (mCurFishCount a) (mCount b)
                    else int_sub (mCurFishCount a) (mCount b))
          (\<lambda>n. Inr (a\<lparr>mFishBehavior := rest, mCurFishCount := n\<rparr>))) \<and>
   (run_behavior n a = Inr a' \<longrightarrow>
      (\<exists>j\<le>n. map event (mFishBehavior a') = drop j (map event (mFishBehavior a)) \<and>
         mCurFishCount a' = mCurFishCount a + sum_list (map delta (take j (mFishBehavior a)))))"
proof (intro conjI impI allI)
  fix m
  assume h: "SIMULATINGFISHCOMEANDGO \<in> toggleBitset a \<and> mFishBehavior a = b # rest \<and>
    mFrame b = int k \<and> int k \<le> INT_MAX" and m: "m \<le> k"
  then show "run_behavior m a = Inr (a\<lparr>mFishBehavior := b\<lparr>mFrame := int (k - m)\<rparr> # rest\<rparr>)"
    using run_behavior_countdown[of a b rest k m] by simp
next
  assume h: "SIMULATINGFISHCOMEANDGO \<in> toggleBitset a \<and> mFishBehavior a = b # rest \<and>
    mFrame b = int k \<and> int k \<le> INT_MAX"
  let ?b = "b\<lparr>mFrame := 0\<rparr>"
  let ?a = "a\<lparr>mFishBehavior := ?b # rest\<rparr>"
  have r: "run_behavior k a = Inr ?a"
    using run_behavior_countdown[of a b rest k k] h by simp
  have t: "SIMULATINGFISHCOMEANDGO \<in> toggleBitset ?a" "mFishBehavior ?a = ?b # rest" "mFrame ?b = 0"
    using h by simp_all
  have "render_behavior ?a =
     bind_fault (if mOp ?b = ''+'' then int_add (mCurFishCount ?a) (mCount ?b)
                 else int_sub (mCurFishCount ?a) (mCount ?b))
       (\<lambda>n. Inr (?a\<lparr>mFishBehavior := rest, mCurFishCount := n\<rparr>))"
    by (rule render_behavior_apply[OF t])
  then have "render_behavior ?a =
     bind_fault (if mOp b = ''+'' then int_add (mCurFishCount a) (mCount b)
                    else int_sub (mCurFishCount a) (mCount b))
          (\<lambda>n. Inr (a\<lparr>mFishBehavior := rest, mCurFishCount := n\<rparr>))"
    by simp
  then show "run_behavior (Suc k) a =
        bind_fault (if mOp b = ''+'' then int_add (mCurFishCount a) (mCount b)
                    else int_sub (mCurFishCount a) (mCount b))
          (\<lambda>n. Inr (a\<lparr>mFishBehavior := rest, mCurFishCount := n\<rparr>))"
    using r by (simp only: run_behavior_snoc bind_fault_def sum.case)
next
  assume "run_behavior n a = Inr a'"
  then show "\<exists>j\<le>n. map event (mFishBehavior a') = drop j (map event (mFishBehavior a)) \<and>
         mCurFishCount a' = mCurFishCount a + sum_list (map delta (take j (mFishBehavior a)))"
    by (rule run_behavior_prefix)
qed

lemma scripted_example_run:
  "run_behavior (Suc (Suc (Suc 0))) scripted_example =
     Inr (scripted_example\<lparr>mFishBehavior := [], mCurFishCount := 505\<rparr>)"
  by (simp add: scripted_example_def render_behavior_def Let_def int_add_def int_sub_def
      bind_fault_def INT_MIN_def INT_MAX_def)

theorem behavior_queue_fifo_witness:
  "SIMULATINGFISHCOMEANDGO \<in> toggleBitset scripted_example \<and>
   mFishBehavior scripted_example =
     \<lparr>mFrame = 1, mOp = ''+'', mCount = 10\<rparr> # [\<lparr>mFrame = 0, mOp = ''-'', mCount = 5\<rparr>] \<and>
   mFrame \<lparr>mFrame = 1, mOp = ''+'', mCount = 10\<rparr> = int 1 \<and> int 1 \<le> INT_MAX \<and>
   run_behavior 0 scripted_example =
      Inr (scripted_example\<lparr>mFishBehavior :=
             \<lparr>mFrame = 1, mOp = ''+'', mCount = 10\<rparr>
               # [\<lparr>mFrame = 0, mOp = ''-'', mCount = 5\<rparr>]\<rparr>) \<and>
   run_behavior 1 scripted_example =
      Inr (scripted_example\<lparr>mFishBehavior :=
             \<lparr>mFrame = 0, mOp = ''+'', mCount = 10\<rparr>
               # [\<lparr>mFrame = 0, mOp = ''-'', mCount = 5\<rparr>]\<rparr>) \<and>
   run_behavior (Suc 1) scripted_example =
     Inr (scripted_example\<lparr>mFishBehavior := [\<lparr>mFrame = 0, mOp = ''-'', mCount = 5\<rparr>],
            mCurFishCount := 510\<rparr>) \<and>
   run_behavior (Suc (Suc (Suc 0))) scripted_example =
     Inr (scripted_example\<lparr>mFishBehavior := [], mCurFishCount := 505\<rparr>) \<and>
   (\<exists>j\<le>Suc (Suc (Suc 0)).
      map event (mFishBehavior (scripted_example\<lparr>mFishBehavior := [], mCurFishCount := 505\<rparr>))
        = drop j (map event (mFishBehavior scripted_example)) \<and>
      mCurFishCount (scripted_example\<lparr>mFishBehavior := [], mCurFishCount := 505\<rparr>)
        = mCurFishCount scripted_example
          + sum_list (map delta (take j (mFishBehavior scripted_example))))"
proof -
  let ?b = "\<lparr>mFrame = 1, mOp = ''+'', mCount = 10\<rparr>"
  let ?rest = "[\<lparr>mFrame = 0, mOp = ''-'', mCount = 5\<rparr>]"
  let ?end = "scripted_example\<lparr>mFishBehavior := [], mCurFishCount := 505\<rparr>"
  have h: "SIMULATINGFISHCOMEANDGO \<in> toggleBitset scripted_example"
    "mFishBehavior scripted_example = ?b # ?rest" "mFrame ?b = int 1" "int 1 \<le> INT_MAX"
    by (simp_all add: scripted_example_def INT_MAX_def)
  note T = behavior_queue_fifo [of scripted_example ?b ?rest 1 "Suc (Suc (Suc 0))" ?end]
  from T h have c1: "\<forall>m\<le>1. run_behavior m scripted_example =
      Inr (scripted_example\<lparr>mFishBehavior := ?b\<lparr>mFrame := int (1 - m)\<rparr> # ?rest\<rparr>)"
    by blast
  from c1 have "run_behavior 0 scripted_example =
      Inr (scripted_example\<lparr>mFishBehavior := ?b\<lparr>mFrame := int (1 - 0)\<rparr> # ?rest\<rparr>)"
    by blast
  then have c10: "run_behavior 0 scripted_example =
      Inr (scripted_example\<lparr>mFishBehavior := \<lparr>mFrame = 1, mOp = ''+'', mCount = 10\<rparr> # ?rest\<rparr>)"
    by simp
  from c1 have "run_behavior 1 scripted_example =
      Inr (scripted_example\<lparr>mFishBehavior := ?b\<lparr>mFrame := int (1 - 1)\<rparr> # ?rest\<rparr>)"
    by blast
  then have c11: "run_behavior 1 scripted_example =
      Inr (scripted_example\<lparr>mFishBehavior := \<lparr>mFrame = 0, mOp = ''+'', mCount = 10\<rparr> # ?rest\<rparr>)"
    by simp
  from T h have "run_behavior (Suc 1) scripted_example =
        bind_fault (if mOp ?b = ''+'' then int_add (mCurFishCount scripted_example) (mCount ?b)
                    else int_sub (mCurFishCount scripted_example) (mCount ?b))
          (\<lambda>n. Inr (scripted_example\<lparr>mFishBehavior := ?rest, mCurFishCount := n\<rparr>))"
    by blast
  then have c2: "run_behavior (Suc 1) scripted_example =
     Inr (scripted_example\<lparr>mFishBehavior := ?rest, mCurFishCount := 510\<rparr>)"
    by (simp add: int_add_def bind_fault_def INT_MIN_def INT_MAX_def scripted_example_def)
  from T scripted_example_run have c3: "\<exists>j\<le>Suc (Suc (Suc 0)).
      map event (mFishBehavior ?end) = drop j (map event (mFishBehavior scripted_example)) \<and>
      mCurFishCount ?end = mCurFishCount scripted_example
          + sum_list (map delta (take j (mFishBehavior scripted_example)))"
    by blast
  from h c10 c11 c2 c3 scripted_example_run show ?thesis by blast
qed






section \<open>Properties of the reallocation step of the frame\<close>






section \<open>Properties of the batched drawing pass\<close>

lemma draw_models_bounds:
  "j \<in> set (draw_models c fb fe i) \<Longrightarrow>
   i \<le> j \<and> j \<le> MODELMAX c \<and> \<not> (MODELSMALLFISHA c \<le> j \<and> (j < fb \<or> fe < j))"
proof (induction c fb fe i rule: draw_models.induct)
  case (1 c fb fe i)
  show ?case
  proof (cases "i \<le> MODELMAX c")
    case False
    with "1.prems" show ?thesis by (simp add: draw_models.simps[of c fb fe i])
  next
    case True
    show ?thesis
    proof (cases "i \<ge> MODELSMALLFISHA c \<and> (i < fb \<or> i > fe)")
      case skip: True
      with True "1.prems" have "j \<in> set (draw_models c fb fe (i + 1))"
        by (simp add: draw_models.simps[of c fb fe i])
      from "1.IH"(1)[OF True skip this] show ?thesis by simp
    next
      case draw: False
      with True "1.prems" have "j = i \<or> j \<in> set (draw_models c fb fe (i + 1))"
        by (simp add: draw_models.simps[of c fb fe i])
      then show ?thesis
      proof
        assume "j = i"
        with True draw show ?thesis by auto
      next
        assume "j \<in> set (draw_models c fb fe (i + 1))"
        from "1.IH"(2)[OF True draw this] show ?thesis by simp
      qed
    qed
  qed
qed

text \<open>
  Claim C9. In the batched drawing pass every index at which \<open>mAquariumModels\<close> is read is a
  valid model index, at least 0 and strictly below \<open>MODELMAX\<close>: the loop runs up to
  \<open>MODELMAX\<close> inclusive, and the guard that skips the fish models of the other drawing mode
  also skips \<open>MODELMAX\<close> itself. The enumerators are declared outside the sources; the
  theorem holds for every assignment of values in the declared order.
\<close>

theorem batched_draw_in_bounds:
  assumes "enum_ok c"
  shows "\<forall>i\<in>set (batched_draw_indices c toggles). 0 \<le> i \<and> i < MODELMAX c"
proof
  fix j assume "j \<in> set (batched_draw_indices c toggles)"
  then have b: "0 \<le> j" "j \<le> MODELMAX c"
    "\<not> (MODELSMALLFISHA c \<le> j \<and> (j < fishBegin c toggles \<or> fishEnd c toggles < j))"
    using draw_models_bounds[of j c "fishBegin c toggles" "fishEnd c toggles" 0]
    by (auto simp: batched_draw_indices_def)
  have "fishEnd c toggles < MODELMAX c" "MODELSMALLFISHA c \<le> MODELMAX c"
    using assms by (auto simp: enum_ok_def fishEnd_def)
  with b have "j \<noteq> MODELMAX c" by auto
  with b show "0 \<le> j \<and> j < MODELMAX c" by simp
qed

theorem batched_draw_in_bounds_witness:
  "enum_ok reference_scene \<and>
   list_all (\<lambda>i. 0 \<le> i \<and> i < MODELMAX reference_scene)
     (batched_draw_indices reference_scene {DRAWPERMODEL})"
proof -
  have e: "enum_ok reference_scene" by (simp add: enum_ok_def reference_scene_def)
  from batched_draw_in_bounds [OF e, of "{DRAWPERMODEL}"] e show ?thesis
    by (simp add: list_all_iff)
qed

section \<open>Properties of the FPS history update\<close>

lemma array_load_fault: "array_load xs i = Inl e \<Longrightarrow> e = OutOfBounds"
  by (simp add: array_load_def split: if_splits)

lemma array_store_fault: "array_store xs i v = Inl e \<Longrightarrow> e = OutOfBounds"
  by (simp add: array_store_def split: if_splits)

lemma array_store_length: "array_store xs i v = Inr ys \<Longrightarrow> length ys = length xs"
  by (auto simp: array_store_def split: if_splits)

lemma history_loop_oob:
  "0 \<le> i \<Longrightarrow> i < n \<Longrightarrow> int (length hf) = n \<Longrightarrow>
   history_loop n i (hf, ht) = Inl OutOfBounds"
proof (induction "nat (n - i)" arbitrary: i hf ht)
  case 0
  then show ?case by simp
next
  case (Suc k)
  show ?case
  proof (cases "i + 1 < n")
    case False
    with Suc.prems have "array_load hf (i + 1) = Inl OutOfBounds"
      by (simp add: array_load_def)
    with Suc.prems show ?thesis
      by (simp add: history_loop.simps[of n i] bind_fault_def)
  next
    case True
    with Suc.prems have ld: "array_load hf (i + 1) = Inr (hf ! nat (i + 1))"
      by (simp add: array_load_def)
    from Suc.prems have st: "array_store hf i (hf ! nat (i + 1)) = Inr (hf[nat i := hf ! nat (i + 1)])"
      by (simp add: array_store_def)
    let ?hf = "hf[nat i := hf ! nat (i + 1)]"
    have k: "k = nat (n - (i + 1))" using Suc.hyps(2) by simp
    have p: "0 \<le> i + 1" "int (length ?hf) = n" using Suc.prems by simp_all
    show ?thesis
    proof (cases "array_load ht (i + 1)")
      case (Inl e)
      with ld st Suc.prems array_load_fault[OF Inl] show ?thesis
        by (simp add: history_loop.simps[of n i] bind_fault_def)
    next
      case (Inr y)
      show ?thesis
      proof (cases "array_store ht i y")
        case sl: (Inl e)
        with ld st Inr Suc.prems array_store_fault[OF sl] show ?thesis
          by (simp add: history_loop.simps[of n i] bind_fault_def)
      next
        case sr: (Inr ht')
        from Suc.hyps(1)[OF k p(1) True p(2), of ht'] ld st Inr sr Suc.prems show ?thesis
          by (simp add: history_loop.simps[of n i] bind_fault_def)
      qed
    qed
  qed
qed

text \<open>
  Claim C8 fails on the code. With history vectors of \<open>NUM_HISTORY_DATA\<close> elements, as the
  constructor builds them, every call of \<open>update\<close> reads \<open>mHistoryFPS[NUM_HISTORY_DATA]\<close>,
  one past the end: the shift loop runs \<open>i\<close> up to \<open>NUM_HISTORY_DATA - 1\<close> and reads element
  \<open>i + 1\<close>.
\<close>

theorem update_history_out_of_bounds:
  "update_history (int (length mHistoryFPS)) mAverageFPS frameTime
     (mHistoryFPS, mHistoryFrameTime) = Inl OutOfBounds"
proof (cases "length mHistoryFPS = 0")
  case True
  then show ?thesis
    by (simp add: update_history_def history_loop.simps[of 0 0] bind_fault_def array_store_def)
next
  case False
  then have "history_loop (int (length mHistoryFPS)) 0 (mHistoryFPS, mHistoryFrameTime)
      = Inl OutOfBounds"
    by (intro history_loop_oob) simp_all
  then show ?thesis by (simp add: update_history_def bind_fault_def)
qed

section \<open>Properties of the constructor\<close>

lemma memset_ff: "memset (replicate 20 255) 0 5 = Inr (replicate 5 0 @ replicate 15 255)"
  by (simp add: memset_def)

text \<open>
  Claim C10 fails on the code. \<open>memset(fishCount, 0, 5)\<close> clears five bytes, not five
  \<open>int\<close>s: constructed over storage whose bytes were all \<open>0xFF\<close>, only the first entry of
  \<open>fishCount\<close> is zero afterwards.
\<close>

theorem Aquarium_ctor_fishCount_not_zeroed:
  "map_sum id fishCount (Aquarium_ctor (replicate 20 255) (0::nat) 0) = Inr [0, - 256, - 1, - 1, - 1]"
  by (simp add: Aquarium_ctor_def memset_ff bind_fault_def load_int_def nth_append)

end
